theory Spec2Isabelle
  imports Main "HOL-Library.Word"
begin

section \<open>Package core: the identifier-loader registry\<close>

text \<open>
  The Go package \<^verbatim>\<open>core\<close> (file \<^verbatim>\<open>pkg/core/core.go\<close>) declares the interfaces of the
  identification protocol and one piece of behaviour: a package-level array of eight
  identifier loaders, written by \<^verbatim>\<open>RegisterIdentifier\<close> and read by \<^verbatim>\<open>LoadIdentifier\<close>.

  A Go \<^verbatim>\<open>byte\<close> is an 8-bit word; \<^verbatim>\<open>int(id)\<close> is its unsigned value. A Go \<^verbatim>\<open>error\<close> made by
  \<^verbatim>\<open>errors.New\<close> is identified with its message; \<^verbatim>\<open>nil\<close> is \<open>None\<close>.
\<close>

type_synonym byte = "8 word"

type_synonym error = string

text \<open>A run-time panic of the Go program: indexing an array outside its bounds.\<close>

datatype panic = IndexOutOfRange

subsection \<open>The persistence cursor\<close>

text \<open>
  \<^verbatim>\<open>persist.LoadSaver\<close> is imported by \<^verbatim>\<open>core.go\<close>; \<^verbatim>\<open>LoadIdentifier\<close> reads and writes its public
  field \<^verbatim>\<open>Err\<close> and calls its method \<^verbatim>\<open>LoadByte\<close>. The cursor is a sequential medium: the bytes
  not yet read, and the error field.
\<close>

record LoadSaver =
  buf :: "byte list"
  Err :: "error option"

text \<open>
  Modelled from the spec: the method \<^verbatim>\<open>LoadByte\<close> of \<^verbatim>\<open>persist.LoadSaver\<close>, whose package is
  not part of the source at hand. The spec (sections 4.1, 6 and 7) says that the cursor has
  typed read primitives and a sticky first-error field: once the error is set, every further
  read is a no-op that preserves the first error; a read of an error-free cursor hands back
  the next byte and moves past it. The spec fixes neither the byte that a read hands back
  when it reads nothing, nor the error a read past the end records: they are the parameters
  \<open>z\<close> and \<open>e\<close>, and every statement below holds for all their values.
\<close>

definition LoadByte :: "byte \<Rightarrow> error \<Rightarrow> LoadSaver \<Rightarrow> byte \<times> LoadSaver" where
  "LoadByte z e ls =
     (if Err ls \<noteq> None then (z, ls)
      else case buf ls of
             [] \<Rightarrow> (z, ls\<lparr>Err := Some e\<rparr>)
           | b # bs \<Rightarrow> (b, ls\<lparr>buf := bs\<rparr>))"

subsection \<open>Loaders and the registry\<close>

text \<open>
  \<^verbatim>\<open>type IdentifierLoader func(*persist.LoadSaver) Identifier\<close>: a loader works on the cursor
  it is handed (it may read from it and may write its fields) and returns an Identifier, an
  interface value that may be \<^verbatim>\<open>nil\<close>. The concrete identifiers live in other packages: their
  type is the parameter \<open>'i\<close>. A loader value of Go may itself be \<^verbatim>\<open>nil\<close>, so a slot of the
  registry is an option.
\<close>

type_synonym 'i IdentifierLoader = "LoadSaver \<Rightarrow> 'i option \<times> LoadSaver"

type_synonym 'i registry = "'i IdentifierLoader option list"

text \<open>\<^verbatim>\<open>const ( Pronom byte = iota )\<close>\<close>

definition Pronom :: byte where
  "Pronom = 0"

text \<open>\<^verbatim>\<open>var loaders = [8]IdentifierLoader{nil, nil, nil, nil, nil, nil, nil, nil}\<close>\<close>

definition loaders :: "'i registry" where
  "loaders = [None, None, None, None, None, None, None, None]"

text \<open>
  \<^verbatim>\<open>func RegisterIdentifier(id byte, l IdentifierLoader) { loaders[int(id)] = l }\<close>

  The package variable is passed in and handed back. Go checks the index against the
  length of the array and panics outside it.
\<close>

definition RegisterIdentifier ::
  "byte \<Rightarrow> 'i IdentifierLoader option \<Rightarrow> 'i registry \<Rightarrow> panic + 'i registry" where
  "RegisterIdentifier idb l ld =
     (if unat idb < length ld then Inr (ld[unat idb := l]) else Inl IndexOutOfRange)"

text \<open>
  \<^verbatim>\<open>
  func LoadIdentifier(ls *persist.LoadSaver) Identifier {
      id := ls.LoadByte()
      l := loaders[int(id)]
      if l == nil {
          if ls.Err == nil {
              ls.Err = errors.New("bad identifier loader")
          }
          return nil
      }
      return l(ls)
  }
  \<close>
  The result is the Identifier returned together with the cursor as the call leaves it.
\<close>

definition LoadIdentifier ::
  "byte \<Rightarrow> error \<Rightarrow> 'i registry \<Rightarrow> LoadSaver \<Rightarrow> panic + ('i option \<times> LoadSaver)" where
  "LoadIdentifier z e ld ls =
     (case LoadByte z e ls of
        (idb, ls1) \<Rightarrow>
          if unat idb < length ld then
            (case ld ! unat idb of
               None \<Rightarrow>
                 (if Err ls1 = None
                  then Inr (None, ls1\<lparr>Err := Some ''bad identifier loader''\<rparr>)
                  else Inr (None, ls1))
             | Some l \<Rightarrow> Inr (l ls1))
          else Inl IndexOutOfRange)"

text \<open>
  The registrations are made at initialisation, one call after the other, before any load;
  a panic ends the process. \<open>register_all\<close> runs such a sequence of calls of
  \<open>RegisterIdentifier\<close> on the registry it is given.
\<close>

fun register_all ::
  "(byte \<times> 'i IdentifierLoader option) list \<Rightarrow> 'i registry \<Rightarrow> panic + 'i registry" where
  "register_all [] ld = Inr ld"
| "register_all ((t, l) # rs) ld =
     (case RegisterIdentifier t l ld of
        Inl p \<Rightarrow> Inl p
      | Inr ld' \<Rightarrow> register_all rs ld')"

subsection \<open>Matcher types\<close>

text \<open>
  \<^verbatim>\<open>
  type MatcherType int
  const (
      ExtensionMatcher MatcherType = iota
      MIMEMatcher
      ContainerMatcher
      ByteMatcher
      TextMatcher
      XMLMatcher
  )
  \<close>
  The enumeration is a datatype; \<open>MatcherType_int\<close> gives each constant the integer that
  \<^verbatim>\<open>iota\<close> assigns to it, and the order of the type is the order of these integers.
\<close>

datatype MatcherType =
    ExtensionMatcher
  | MIMEMatcher
  | ContainerMatcher
  | ByteMatcher
  | TextMatcher
  | XMLMatcher

fun MatcherType_int :: "MatcherType \<Rightarrow> int" where
  "MatcherType_int ExtensionMatcher = 0"
| "MatcherType_int MIMEMatcher = 1"
| "MatcherType_int ContainerMatcher = 2"
| "MatcherType_int ByteMatcher = 3"
| "MatcherType_int TextMatcher = 4"
| "MatcherType_int XMLMatcher = 5"

definition MatcherType_less :: "MatcherType \<Rightarrow> MatcherType \<Rightarrow> bool" where
  "MatcherType_less a b = (MatcherType_int a < MatcherType_int b)"

text \<open>
  Modelled from the spec: the order in which the engine runs the matchers. The engine is
  not part of the source at hand; the spec (section 4.5, step 2) says: for each MatcherType
  in defined order {Extension, MIME, Container, Byte, Text, XML}.
\<close>

definition execution_order :: "MatcherType list" where
  "execution_order =
     [ExtensionMatcher, MIMEMatcher, ContainerMatcher, ByteMatcher, TextMatcher, XMLMatcher]"

subsection \<open>Fanning a result out to the recorders\<close>

text \<open>
  \<^verbatim>\<open>Record(MatcherType, Result) bool\<close> is a method of the interface \<^verbatim>\<open>Recorder\<close>: it may change
  the recorder and answers whether the result was recorded. A recorder is its state \<open>'s\<close>;
  the method is a function from the state to the answer and the new state.

  Modelled from the spec: the engine's loop over the recorders for one result. The engine
  is not part of the source at hand; the spec (section 4.5, step 3) says: for each Result,
  iterate Identifiers in registration order, calling Record(type, result) on each
  corresponding Recorder; stop the per-Result iteration as soon as one Recorder returns
  true. The comment on \<^verbatim>\<open>Record\<close> in \<^verbatim>\<open>core.go\<close> says the same: siegfried will iterate through
  the identifiers until an identifier returns true.

  \<open>fan_out\<close> returns the answers of the calls it made, in the order it made them, and the
  recorders as the loop leaves them.
\<close>

fun fan_out ::
  "('s \<Rightarrow> MatcherType \<Rightarrow> 'r \<Rightarrow> bool \<times> 's) \<Rightarrow> MatcherType \<Rightarrow> 'r \<Rightarrow> 's list \<Rightarrow> bool list \<times> 's list" where
  "fan_out Record t r [] = ([], [])"
| "fan_out Record t r (rc # rcs) =
     (case Record rc t r of
        (b, rc') \<Rightarrow>
          if b then ([True], rc' # rcs)
          else (case fan_out Record t r rcs of (bs, rcs') \<Rightarrow> (False # bs, rc' # rcs')))"

subsection \<open>Loaders used in the examples\<close>

text \<open>
  Three loaders of the kind another package may register: one that reads nothing and
  returns an identifier, one that also clears the error field of the cursor (the field is
  public, as the assignment in \<^verbatim>\<open>LoadIdentifier\<close> shows), and one that reads a byte through
  \<open>LoadByte\<close> and returns it as the identifier.
\<close>

definition const_loader :: "'i \<Rightarrow> 'i IdentifierLoader" where
  "const_loader x ls = (Some x, ls)"

definition clearing_loader :: "'i \<Rightarrow> 'i IdentifierLoader" where
  "clearing_loader x ls = (Some x, ls\<lparr>Err := None\<rparr>)"

definition byte_loader :: "byte IdentifierLoader" where
  "byte_loader ls = (case LoadByte 0 ''eof'' ls of (b, ls') \<Rightarrow> (Some b, ls'))"

text \<open>
  A recorder used in the examples: its state is a number, it records a result when the
  result is that number, and it counts the calls it has seen by moving to the next number.
\<close>

definition counting_Record :: "nat \<Rightarrow> MatcherType \<Rightarrow> nat \<Rightarrow> bool \<times> nat" where
  "counting_Record s t r = (s = r, Suc s)"

text \<open>A loader is sticky when it leaves an error that is already on the cursor in place.\<close>

definition sticky :: "'i IdentifierLoader \<Rightarrow> bool" where
  "sticky l = (\<forall>ls. Err ls = None \<or> Err (snd (l ls)) = Err ls)"

definition sticky_registry :: "'i registry \<Rightarrow> bool" where
  "sticky_registry ld = list_all (\<lambda>s. case s of None \<Rightarrow> True | Some l \<Rightarrow> sticky l) ld"

section \<open>Properties of the registry\<close>

lemma length_loaders: "length (loaders :: 'i registry) = 8"
  by (simp add: loaders_def)

lemma RegisterIdentifier_length:
  "RegisterIdentifier idb l ld = Inr ld' \<Longrightarrow> length ld' = length ld"
  by (auto simp: RegisterIdentifier_def split: if_splits)

lemma loaders_nth: "j < 8 \<Longrightarrow> (loaders :: 'i registry) ! j = None"
proof -
  assume "j < 8"
  then have "j \<in> {0, 1, 2, 3, 4, 5, 6, 7}" by auto
  then show ?thesis by (auto simp: loaders_def)
qed

lemma register_all_length:
  "register_all rs ld = Inr ld' \<Longrightarrow> length ld' = length ld"
proof (induction rs arbitrary: ld)
  case Nil
  then show ?case by simp
next
  case (Cons a rs)
  obtain t l where a: "a = (t, l)" by (cases a)
  from Cons.prems a obtain ld1 where
    r: "RegisterIdentifier t l ld = Inr ld1" and rest: "register_all rs ld1 = Inr ld'"
    by (auto split: sum.splits)
  from Cons.IH [OF rest] RegisterIdentifier_length [OF r] show ?case by simp
qed

lemma register_all_untouched:
  "register_all rs ld = Inr ld' \<Longrightarrow> t \<notin> fst ` set rs \<Longrightarrow> ld' ! unat t = ld ! unat t"
proof (induction rs arbitrary: ld)
  case Nil
  then show ?case by simp
next
  case (Cons a rs)
  obtain u l where a: "a = (u, l)" by (cases a)
  from Cons.prems a obtain ld1 where
    r: "RegisterIdentifier u l ld = Inr ld1" and rest: "register_all rs ld1 = Inr ld'"
    by (auto split: sum.splits)
  from Cons.prems a have ne: "u \<noteq> t" and nin: "t \<notin> fst ` set rs" by auto
  from ne have "unat u \<noteq> unat t" using word_unat_eq_iff by blast
  with r have "ld1 ! unat t = ld ! unat t"
    by (auto simp: RegisterIdentifier_def split: if_splits)
  with Cons.IH [OF rest nin] show ?case by simp
qed

lemma LoadByte_next:
  "Err ls = None \<Longrightarrow> buf ls = t # rest \<Longrightarrow> LoadByte z e ls = (t, ls\<lparr>buf := rest\<rparr>)"
  by (simp add: LoadByte_def)

lemma LoadByte_sticky:
  "Err ls = Some x \<Longrightarrow> LoadByte z e ls = (z, ls)"
  by (simp add: LoadByte_def)

lemma LoadIdentifier_out_of_range:
  "Err ls = None \<Longrightarrow> buf ls = t # rest \<Longrightarrow> length ld \<le> unat t \<Longrightarrow>
   LoadIdentifier z e ld ls = Inl IndexOutOfRange"
  by (simp add: LoadIdentifier_def LoadByte_next)

lemma LoadIdentifier_empty_slot:
  "Err ls = None \<Longrightarrow> buf ls = t # rest \<Longrightarrow> unat t < length ld \<Longrightarrow> ld ! unat t = None \<Longrightarrow>
   LoadIdentifier z e ld ls = Inr (None, ls\<lparr>buf := rest, Err := Some ''bad identifier loader''\<rparr>)"
  by (simp add: LoadIdentifier_def LoadByte_next)

lemma LoadIdentifier_loader:
  "Err ls = None \<Longrightarrow> buf ls = t # rest \<Longrightarrow> unat t < length ld \<Longrightarrow> ld ! unat t = Some l \<Longrightarrow>
   LoadIdentifier z e ld ls = Inr (l (ls\<lparr>buf := rest\<rparr>))"
  by (simp add: LoadIdentifier_def LoadByte_next)

lemma LoadIdentifier_errored:
  "Err ls = Some x \<Longrightarrow> unat z < length ld \<Longrightarrow>
   LoadIdentifier z e ld ls = (case ld ! unat z of None \<Rightarrow> Inr (None, ls) | Some l \<Rightarrow> Inr (l ls))"
  by (simp add: LoadIdentifier_def LoadByte_sticky split: option.splits)

lemma LoadIdentifier_errored_out_of_range:
  "Err ls = Some x \<Longrightarrow> length ld \<le> unat z \<Longrightarrow> LoadIdentifier z e ld ls = Inl IndexOutOfRange"
  by (simp add: LoadIdentifier_def LoadByte_sticky)

lemma LoadIdentifier_panics_iff:
  "(LoadIdentifier z e ld ls = Inl IndexOutOfRange) = (length ld \<le> unat (fst (LoadByte z e ls)))"
  by (cases "LoadByte z e ls") (auto simp: LoadIdentifier_def split: option.splits)

lemma LoadIdentifier_errored_any_byte:
  "Err ls = Some x \<Longrightarrow>
   LoadIdentifier z e (loaders[unat z := Some (const_loader i)]) ls =
     (if unat z < 8 then Inr (Some i, ls) else Inl IndexOutOfRange)"
  by (simp add: LoadIdentifier_def LoadByte_sticky length_loaders const_loader_def)

lemma sticky_registry_nth:
  "sticky_registry ld \<Longrightarrow> j < length ld \<Longrightarrow> ld ! j = Some l \<Longrightarrow> sticky l"
  by (auto simp: sticky_registry_def list_all_length split: option.splits)

lemma sticky_const_loader: "sticky (const_loader i)"
  by (simp add: sticky_def const_loader_def)

lemma sticky_byte_loader: "sticky byte_loader"
  by (auto simp: sticky_def byte_loader_def LoadByte_def)

section \<open>Properties of the engine's loop over the recorders\<close>

lemma fan_out_lengths:
  "fan_out Record t r recs = (bs, recs') \<Longrightarrow> length bs \<le> length recs \<and> length recs' = length recs"
proof (induction recs arbitrary: bs recs')
  case Nil
  then show ?case by simp
next
  case (Cons rc rcs)
  obtain b rc' where c: "Record rc t r = (b, rc')" by (cases "Record rc t r")
  show ?case
  proof (cases b)
    case True
    with Cons.prems c show ?thesis by auto
  next
    case False
    obtain bs1 rcs1 where f: "fan_out Record t r rcs = (bs1, rcs1)"
      by (cases "fan_out Record t r rcs")
    with Cons.prems c False have "bs = False # bs1" "recs' = rc' # rcs1" by auto
    with Cons.IH [OF f] show ?thesis by simp
  qed
qed

lemma fan_out_calls:
  "fan_out Record t r recs = (bs, recs') \<Longrightarrow> i < length bs \<Longrightarrow>
   Record (recs ! i) t r = (bs ! i, recs' ! i)"
proof (induction recs arbitrary: bs recs' i)
  case Nil
  then show ?case by simp
next
  case (Cons rc rcs)
  obtain b rc' where c: "Record rc t r = (b, rc')" by (cases "Record rc t r")
  show ?case
  proof (cases b)
    case True
    with Cons.prems c show ?thesis by auto
  next
    case False
    obtain bs1 rcs1 where f: "fan_out Record t r rcs = (bs1, rcs1)"
      by (cases "fan_out Record t r rcs")
    with Cons.prems c False have eq: "bs = False # bs1" "recs' = rc' # rcs1" by auto
    show ?thesis
    proof (cases i)
      case 0
      with eq c False show ?thesis by simp
    next
      case (Suc k)
      with Cons.prems(2) eq have "k < length bs1" by simp
      from Cons.IH [OF f this] Suc eq show ?thesis by simp
    qed
  qed
qed

lemma fan_out_true_is_last:
  "fan_out Record t r recs = (bs, recs') \<Longrightarrow> i < length bs \<Longrightarrow> bs ! i \<Longrightarrow> Suc i = length bs"
proof (induction recs arbitrary: bs recs' i)
  case Nil
  then show ?case by simp
next
  case (Cons rc rcs)
  obtain b rc' where c: "Record rc t r = (b, rc')" by (cases "Record rc t r")
  show ?case
  proof (cases b)
    case True
    with Cons.prems c show ?thesis by auto
  next
    case False
    obtain bs1 rcs1 where f: "fan_out Record t r rcs = (bs1, rcs1)"
      by (cases "fan_out Record t r rcs")
    with Cons.prems c False have eq: "bs = False # bs1" "recs' = rc' # rcs1" by auto
    show ?thesis
    proof (cases i)
      case 0
      with eq Cons.prems(3) show ?thesis by simp
    next
      case (Suc k)
      with Cons.prems eq have "k < length bs1" "bs1 ! k" by simp_all
      from Cons.IH [OF f this] Suc eq show ?thesis by simp
    qed
  qed
qed

lemma fan_out_stops_only_on_claim:
  "fan_out Record t r recs = (bs, recs') \<Longrightarrow> length bs < length recs \<Longrightarrow> bs \<noteq> [] \<and> last bs"
proof (induction recs arbitrary: bs recs')
  case Nil
  then show ?case by simp
next
  case (Cons rc rcs)
  obtain b rc' where c: "Record rc t r = (b, rc')" by (cases "Record rc t r")
  show ?case
  proof (cases b)
    case True
    with Cons.prems c show ?thesis by auto
  next
    case False
    obtain bs1 rcs1 where f: "fan_out Record t r rcs = (bs1, rcs1)"
      by (cases "fan_out Record t r rcs")
    with Cons.prems c False have eq: "bs = False # bs1" "recs' = rc' # rcs1" by auto
    with Cons.prems(2) have "length bs1 < length rcs" by simp
    from Cons.IH [OF f this] eq show ?thesis by simp
  qed
qed

lemma fan_out_rest_untouched:
  "fan_out Record t r recs = (bs, recs') \<Longrightarrow> drop (length bs) recs' = drop (length bs) recs"
proof (induction recs arbitrary: bs recs')
  case Nil
  then show ?case by simp
next
  case (Cons rc rcs)
  obtain b rc' where c: "Record rc t r = (b, rc')" by (cases "Record rc t r")
  show ?case
  proof (cases b)
    case True
    with Cons.prems c show ?thesis by auto
  next
    case False
    obtain bs1 rcs1 where f: "fan_out Record t r rcs = (bs1, rcs1)"
      by (cases "fan_out Record t r rcs")
    with Cons.prems c False have eq: "bs = False # bs1" "recs' = rc' # rcs1" by auto
    from Cons.IH [OF f] eq show ?thesis by simp
  qed
qed

lemma fan_out_at_most_one:
  "fan_out Record t r recs = (bs, recs') \<Longrightarrow> length (filter (\<lambda>b. b) bs) \<le> 1"
proof (induction recs arbitrary: bs recs')
  case Nil
  then show ?case by simp
next
  case (Cons rc rcs)
  obtain b rc' where c: "Record rc t r = (b, rc')" by (cases "Record rc t r")
  show ?case
  proof (cases b)
    case True
    with Cons.prems c show ?thesis by auto
  next
    case False
    obtain bs1 rcs1 where f: "fan_out Record t r rcs = (bs1, rcs1)"
      by (cases "fan_out Record t r rcs")
    with Cons.prems c False have eq: "bs = False # bs1" "recs' = rc' # rcs1" by auto
    from Cons.IH [OF f] eq show ?thesis by simp
  qed
qed

section \<open>The statements about the registry\<close>

text \<open>
  C9. \<^verbatim>\<open>RegisterIdentifier\<close> returns only when the tag is less than 8. On the array of
  eight slots, a tag of 8 or more indexes past the array and the call panics with the
  out-of-range error; nothing is stored and no error value is reported. A tag below 8 is
  stored at its slot.
\<close>

theorem RegisterIdentifier_total_iff:
  assumes "length ld = 8"
  shows "(8 \<le> unat idb \<longrightarrow> RegisterIdentifier idb l ld = Inl IndexOutOfRange) \<and>
         (unat idb < 8 \<longrightarrow> RegisterIdentifier idb l ld = Inr (ld[unat idb := l]))"
  using assms by (simp add: RegisterIdentifier_def)

theorem RegisterIdentifier_total_iff_witness:
  "length (loaders :: unit registry) = 8 \<and>
   RegisterIdentifier 8 (Some (const_loader ())) loaders = Inl IndexOutOfRange \<and>
   RegisterIdentifier 7 (Some (const_loader ())) (loaders :: unit registry)
     = Inr (loaders[7 := Some (const_loader ())])"
  using RegisterIdentifier_total_iff [of "loaders :: unit registry" 8 "Some (const_loader ())"]
    RegisterIdentifier_total_iff [of "loaders :: unit registry" 7 "Some (const_loader ())"]
  by (simp add: length_loaders)

text \<open>
  C6. The registry has eight slots: the initial array has length 8 and a registration keeps
  the length. Registering \<open>l1\<close> and then \<open>l2\<close> at the same tag \<open>t < 8\<close> overwrites
  silently: both calls return, the slot holds \<open>l2\<close>, and every other slot is as it was.
\<close>

theorem RegisterIdentifier_overwrites:
  assumes "length ld = 8" and "unat t < 8"
  shows "length (loaders :: 'i registry) = 8 \<and>
         RegisterIdentifier t l1 (ld :: 'i registry) = Inr (ld[unat t := l1]) \<and>
         RegisterIdentifier t l2 (ld[unat t := l1]) = Inr (ld[unat t := l2]) \<and>
         length (ld[unat t := l2]) = 8 \<and>
         (ld[unat t := l2]) ! unat t = l2 \<and>
         (\<forall>j. j \<noteq> unat t \<longrightarrow> (ld[unat t := l2]) ! j = ld ! j)"
  using assms by (simp add: RegisterIdentifier_def length_loaders)

theorem RegisterIdentifier_overwrites_witness:
  "length (loaders :: unit registry) = 8 \<and> unat (3 :: byte) < 8 \<and>
   RegisterIdentifier 3 (Some (const_loader ())) (loaders :: unit registry)
     = Inr (loaders[3 := Some (const_loader ())]) \<and>
   RegisterIdentifier 3 (Some (clearing_loader ())) (loaders[3 := Some (const_loader ())])
     = Inr ((loaders :: unit registry)[3 := Some (clearing_loader ())]) \<and>
   ((loaders :: unit registry)[3 := Some (clearing_loader ())]) ! 3 = Some (clearing_loader ()) \<and>
   ((loaders :: unit registry)[3 := Some (clearing_loader ())]) ! 5 = (loaders :: unit registry) ! 5"
  using RegisterIdentifier_overwrites [of "loaders :: unit registry" 3
      "Some (const_loader ())" "Some (clearing_loader ())"]
  by (simp add: length_loaders)

text \<open>
  C2. After \<^verbatim>\<open>RegisterIdentifier(t, l)\<close> with \<open>t < 8\<close>, \<^verbatim>\<open>LoadIdentifier\<close> on an error-free cursor
  whose next byte is \<open>t\<close> reads that byte, applies exactly the loader \<open>l\<close> to the cursor
  (now past the tag) and returns what \<open>l\<close> returns.
\<close>

theorem LoadIdentifier_dispatch:
  assumes "length ld = 8" and "unat t < 8" and "Err ls = None" and "buf ls = t # rest"
  shows "RegisterIdentifier t (Some l) ld = Inr (ld[unat t := Some l]) \<and>
         LoadIdentifier z e (ld[unat t := Some l]) ls = Inr (l (ls\<lparr>buf := rest\<rparr>))"
  using assms by (simp add: RegisterIdentifier_def LoadIdentifier_loader)

theorem LoadIdentifier_dispatch_witness:
  "length (loaders :: byte registry) = 8 \<and> unat (3 :: byte) < 8 \<and>
   Err \<lparr>buf = [3, 42, 7], Err = None\<rparr> = None \<and>
   buf \<lparr>buf = [3, 42, 7], Err = None\<rparr> = 3 # [42, 7] \<and>
   RegisterIdentifier 3 (Some byte_loader) loaders = Inr (loaders[3 := Some byte_loader]) \<and>
   LoadIdentifier 0 ''eof'' (loaders[3 := Some byte_loader]) \<lparr>buf = [3, 42, 7], Err = None\<rparr>
     = Inr (Some 42, \<lparr>buf = [7], Err = None\<rparr>)"
  using LoadIdentifier_dispatch [of "loaders :: byte registry" 3
      "\<lparr>buf = [3, 42, 7], Err = None\<rparr>" "[42, 7]" byte_loader 0 "''eof''"]
  by (simp add: length_loaders byte_loader_def LoadByte_def)

text \<open>
  C10. Registering the nil loader at a tag \<open>t < 8\<close> cannot be told from never having
  registered that tag: \<^verbatim>\<open>LoadIdentifier\<close> on an error-free cursor whose next byte is \<open>t\<close> returns
  nil and sets the error of the cursor to "bad identifier loader", and it does the same on
  any registry \<open>ld0\<close> built from the initial array by registrations none of which is at
  \<open>t\<close>.
\<close>

theorem RegisterIdentifier_nil_loader:
  assumes "length ld = 8" and "unat t < 8" and "Err ls = None" and "buf ls = t # rest"
    and "register_all rs loaders = Inr ld0" and "t \<notin> fst ` set rs"
  shows "RegisterIdentifier t None ld = Inr (ld[unat t := None]) \<and>
         LoadIdentifier z e (ld[unat t := None]) ls
           = Inr (None, ls\<lparr>buf := rest, Err := Some ''bad identifier loader''\<rparr>) \<and>
         LoadIdentifier z e ld0 ls = LoadIdentifier z e (ld[unat t := None]) ls"
proof -
  from assms(5) have len0: "length ld0 = 8"
    using register_all_length length_loaders by metis
  from assms(5,6) have "ld0 ! unat t = loaders ! unat t"
    by (rule register_all_untouched)
  with assms(2) have slot0: "ld0 ! unat t = None" by (simp add: loaders_nth)
  from assms(1,2) have reg: "RegisterIdentifier t None ld = Inr (ld[unat t := None])"
    by (simp add: RegisterIdentifier_def)
  from assms(1-4) have a: "LoadIdentifier z e (ld[unat t := None]) ls
      = Inr (None, ls\<lparr>buf := rest, Err := Some ''bad identifier loader''\<rparr>)"
    by (simp add: LoadIdentifier_empty_slot)
  from assms(2-4) len0 slot0 have b: "LoadIdentifier z e ld0 ls
      = Inr (None, ls\<lparr>buf := rest, Err := Some ''bad identifier loader''\<rparr>)"
    by (simp add: LoadIdentifier_empty_slot)
  from reg a b show ?thesis by simp
qed

theorem RegisterIdentifier_nil_loader_witness:
  "length [None, None, Some byte_loader, None, None, None, None, None] = 8 \<and>
   unat (2 :: byte) < 8 \<and>
   Err \<lparr>buf = [2, 9], Err = None\<rparr> = None \<and>
   buf \<lparr>buf = [2, 9], Err = None\<rparr> = 2 # [9] \<and>
   register_all [(5, Some byte_loader)] loaders = Inr (loaders[5 := Some byte_loader]) \<and>
   2 \<notin> fst ` set [(5 :: byte, Some byte_loader)] \<and>
   RegisterIdentifier 2 None [None, None, Some byte_loader, None, None, None, None, None]
     = Inr [None, None, None, None, None, None, None, None] \<and>
   LoadIdentifier 0 ''eof'' ([None, None, None, None, None, None, None, None] :: byte registry)
       \<lparr>buf = [2, 9], Err = None\<rparr>
     = Inr (None, \<lparr>buf = [9], Err = Some ''bad identifier loader''\<rparr>) \<and>
   LoadIdentifier 0 ''eof'' (loaders[5 := Some byte_loader]) \<lparr>buf = [2, 9], Err = None\<rparr>
     = Inr (None :: byte option, \<lparr>buf = [9], Err = Some ''bad identifier loader''\<rparr>)"
proof -
  have r: "register_all [(5, Some byte_loader)] loaders = Inr (loaders[5 := Some byte_loader])"
    by (simp add: RegisterIdentifier_def length_loaders)
  have n: "2 \<notin> fst ` set [(5 :: byte, Some byte_loader)]" by simp
  show ?thesis
    using r n RegisterIdentifier_nil_loader
      [of "[None, None, Some byte_loader, None, None, None, None, None]" 2
        "\<lparr>buf = [2, 9], Err = None\<rparr>" "[9]" "[(5, Some byte_loader)]"
        "loaders[5 := Some byte_loader]" 0 "''eof''"]
    by simp
qed

section \<open>Tags without a slot\<close>

text \<open>
  C1. \<^verbatim>\<open>LoadIdentifier\<close> is to answer malformed input with an error on the cursor and never
  with a panic. The tag is a byte, the array has eight slots, and \<^verbatim>\<open>loaders[int(id)]\<close> is
  not guarded: on an error-free cursor whose next byte is 8 the call panics with the
  out-of-range error, here on the initial registry.
\<close>

theorem LoadIdentifier_tag_without_slot:
  "LoadIdentifier 0 ''eof'' (loaders :: unit registry) \<lparr>buf = [8], Err = None\<rparr>
     = Inl IndexOutOfRange"
  by (simp add: LoadIdentifier_def LoadByte_def loaders_def)

text \<open>
  C3. A tag at which no loader is registered is to give nil and the error "bad identifier
  loader". With only \<^verbatim>\<open>Pronom\<close> registered, no loader is registered at tag 255; on an
  error-free cursor whose next byte is 255 the call panics instead. (For a tag below 8
  whose slot is empty the error is set: lemma \<open>LoadIdentifier_empty_slot\<close>.)
\<close>

theorem LoadIdentifier_unregistered_tag_panics:
  "RegisterIdentifier Pronom (Some (const_loader ())) loaders
     = Inr [Some (const_loader ()), None, None, None, None, None, None, None] \<and>
   LoadIdentifier 0 ''eof'' [Some (const_loader ()), None, None, None, None, None, None, None]
     \<lparr>buf = [255, 0], Err = None\<rparr> = Inl IndexOutOfRange"
  by (simp add: RegisterIdentifier_def Pronom_def LoadIdentifier_def LoadByte_def loaders_def)

section \<open>Cursors that already carry an error\<close>

text \<open>
  On a cursor that carries an error the read is a no-op; the tag is the byte \<open>z\<close> the read
  hands back, and the call dispatches on it like on any other tag. With a loader registered
  at that tag (here \<^verbatim>\<open>Pronom\<close>, and \<open>z = 0\<close>), the loader runs and its Identifier is returned,
  so it is not the case that no Identifier is returned.
\<close>

theorem LoadIdentifier_errored_returns_identifier:
  "RegisterIdentifier Pronom (Some (const_loader ())) loaders
     = Inr [Some (const_loader ()), None, None, None, None, None, None, None] \<and>
   LoadIdentifier 0 ''eof'' [Some (const_loader ()), None, None, None, None, None, None, None]
     \<lparr>buf = [], Err = Some ''earlier error''\<rparr>
     = Inr (Some (), \<lparr>buf = [], Err = Some ''earlier error''\<rparr>)"
  by (simp add: RegisterIdentifier_def Pronom_def LoadIdentifier_def LoadByte_def loaders_def
      const_loader_def)

text \<open>
  C4, as the code has it. For a cursor that already carries an error, the read of the tag
  leaves the cursor as it is and hands back the byte \<open>z\<close> of a read that reads nothing. If
  the slot of \<open>z\<close> is empty, \<^verbatim>\<open>LoadIdentifier\<close> returns nil and the cursor, with its error,
  is unchanged. If a loader is registered at \<open>z\<close>, \<^verbatim>\<open>LoadIdentifier\<close> applies it to the
  unchanged cursor and returns what it returns.
\<close>

theorem LoadIdentifier_errored_cursor:
  assumes "length ld = 8" and "unat z < 8" and "Err ls = Some x"
  shows "LoadIdentifier z e ld ls =
           (case ld ! unat z of None \<Rightarrow> Inr (None, ls) | Some l \<Rightarrow> Inr (l ls))"
  using assms by (simp add: LoadIdentifier_errored)

theorem LoadIdentifier_errored_cursor_witness:
  "length (loaders :: unit registry) = 8 \<and> unat (0 :: byte) < 8 \<and>
   Err \<lparr>buf = [5], Err = Some ''earlier error''\<rparr> = Some ''earlier error'' \<and>
   LoadIdentifier 0 ''eof'' (loaders :: unit registry) \<lparr>buf = [5], Err = Some ''earlier error''\<rparr>
     = Inr (None, \<lparr>buf = [5], Err = Some ''earlier error''\<rparr>)"
  using LoadIdentifier_errored_cursor [of "loaders :: unit registry" 0
      "\<lparr>buf = [5], Err = Some ''earlier error''\<rparr>" "''earlier error''" "''eof''"]
  by (simp add: length_loaders loaders_def)

text \<open>
  A loader is free to write the public field \<^verbatim>\<open>Err\<close>. With a loader that clears it
  registered at the tag read, the error the cursor carried on entry is gone when
  \<^verbatim>\<open>LoadIdentifier\<close> returns.
\<close>

theorem LoadIdentifier_loader_clears_error:
  "LoadIdentifier 0 ''eof'' [Some (clearing_loader ()), None, None, None, None, None, None, None]
     \<lparr>buf = [], Err = Some ''earlier error''\<rparr>
     = Inr (Some (), \<lparr>buf = [], Err = None\<rparr>)"
  by (simp add: LoadIdentifier_def LoadByte_def clearing_loader_def)

text \<open>
  C5, as the code has it. \<^verbatim>\<open>LoadIdentifier\<close> itself never overwrites an error: for a cursor
  that carries an error on entry, and a registry whose loaders leave an error that is
  already on the cursor in place, the call returns and the cursor holds the same first
  error, whether or not a loader was found at the tag read.
\<close>

theorem LoadIdentifier_keeps_error:
  assumes "length ld = 8" and "unat z < 8" and "Err ls = Some x" and "sticky_registry ld"
  shows "\<exists>r ls'. LoadIdentifier z e ld ls = Inr (r, ls') \<and> Err ls' = Some x"
proof (cases "ld ! unat z")
  case None
  with assms show ?thesis by (simp add: LoadIdentifier_errored)
next
  case (Some l)
  from assms Some have "sticky l" by (simp add: sticky_registry_nth)
  then have "Err ls = None \<or> Err (snd (l ls)) = Err ls"
    unfolding sticky_def by (rule spec)
  with assms(3) have "Err (snd (l ls)) = Some x" by simp
  moreover from assms Some have "LoadIdentifier z e ld ls = Inr (l ls)"
    by (simp add: LoadIdentifier_errored)
  ultimately show ?thesis by (cases "l ls") auto
qed

theorem LoadIdentifier_keeps_error_witness:
  "length [Some byte_loader, None, None, None, None, None, None, None] = 8 \<and>
   unat (0 :: byte) < 8 \<and>
   Err \<lparr>buf = [5], Err = Some ''earlier error''\<rparr> = Some ''earlier error'' \<and>
   sticky_registry [Some byte_loader, None, None, None, None, None, None, None] \<and>
   (\<exists>r ls'. LoadIdentifier 0 ''eof'' [Some byte_loader, None, None, None, None, None, None, None]
        \<lparr>buf = [5], Err = Some ''earlier error''\<rparr> = Inr (r, ls') \<and>
      Err ls' = Some ''earlier error'')"
proof -
  have s: "sticky_registry [Some byte_loader, None, None, None, None, None, None, None]"
    by (simp add: sticky_registry_def sticky_byte_loader)
  show ?thesis
    using s LoadIdentifier_keeps_error [of "[Some byte_loader, None, None, None, None, None, None, None]"
        0 "\<lparr>buf = [5], Err = Some ''earlier error''\<rparr>" "''earlier error''" "''eof''"]
    by simp
qed

section \<open>Matcher types and the fan-out of a result\<close>

text \<open>
  C7. \<^verbatim>\<open>MatcherType\<close> has exactly the six values Extension, MIME, Container, Byte, Text
  and XML; \<^verbatim>\<open>iota\<close> numbers them 0 to 5, so they are strictly increasing in that sequence,
  which is the order in which the matchers are run.
\<close>

theorem MatcherType_enumeration:
  "(UNIV :: MatcherType set) =
     {ExtensionMatcher, MIMEMatcher, ContainerMatcher, ByteMatcher, TextMatcher, XMLMatcher} \<and>
   map MatcherType_int
     [ExtensionMatcher, MIMEMatcher, ContainerMatcher, ByteMatcher, TextMatcher, XMLMatcher]
     = [0, 1, 2, 3, 4, 5] \<and>
   MatcherType_less ExtensionMatcher MIMEMatcher \<and>
   MatcherType_less MIMEMatcher ContainerMatcher \<and>
   MatcherType_less ContainerMatcher ByteMatcher \<and>
   MatcherType_less ByteMatcher TextMatcher \<and>
   MatcherType_less TextMatcher XMLMatcher \<and>
   execution_order =
     [ExtensionMatcher, MIMEMatcher, ContainerMatcher, ByteMatcher, TextMatcher, XMLMatcher]"
proof -
  have "(UNIV :: MatcherType set) =
     {ExtensionMatcher, MIMEMatcher, ContainerMatcher, ByteMatcher, TextMatcher, XMLMatcher}"
  proof
    show "UNIV \<subseteq> {ExtensionMatcher, MIMEMatcher, ContainerMatcher, ByteMatcher, TextMatcher,
        XMLMatcher}"
    proof
      fix m :: MatcherType
      show "m \<in> {ExtensionMatcher, MIMEMatcher, ContainerMatcher, ByteMatcher, TextMatcher,
        XMLMatcher}"
        by (cases m) simp_all
    qed
  qed simp
  then show ?thesis by (simp add: MatcherType_less_def execution_order_def)
qed

text \<open>
  C8. For one result, the recorders are called in the order of the list (the order in
  which the identifiers were registered), each call is \<open>Record\<close> on the recorder at that
  position, a call that answers true is the last call made, calls stop before the end of
  the list only after such an answer, the recorders not reached are untouched, and so at
  most one recorder answers true for the result.
\<close>

theorem fan_out_first_claim_wins:
  assumes "fan_out Record t r recs = (bs, recs')"
  shows "length bs \<le> length recs \<and> length recs' = length recs \<and>
         (\<forall>i<length bs. Record (recs ! i) t r = (bs ! i, recs' ! i)) \<and>
         (\<forall>i<length bs. bs ! i \<longrightarrow> Suc i = length bs) \<and>
         (length bs < length recs \<longrightarrow> bs \<noteq> [] \<and> last bs) \<and>
         drop (length bs) recs' = drop (length bs) recs \<and>
         length (filter (\<lambda>b. b) bs) \<le> 1"
proof -
  have calls: "\<forall>i<length bs. Record (recs ! i) t r = (bs ! i, recs' ! i)"
    using fan_out_calls [OF assms] by simp
  have lastc: "\<forall>i<length bs. bs ! i \<longrightarrow> Suc i = length bs"
    using fan_out_true_is_last [OF assms] by simp
  have stop: "length bs < length recs \<longrightarrow> bs \<noteq> [] \<and> last bs"
    using fan_out_stops_only_on_claim [OF assms] by simp
  from fan_out_lengths [OF assms] calls lastc stop fan_out_rest_untouched [OF assms]
    fan_out_at_most_one [OF assms]
  show ?thesis by simp
qed

theorem fan_out_first_claim_wins_witness:
  "fan_out counting_Record ByteMatcher 2 [1, 2, 2, 3] = ([False, True], [2, 3, 2, 3]) \<and>
   length [False, True] \<le> length [1, 2, 2, 3 :: nat] \<and>
   counting_Record ([1, 2, 2, 3] ! 0) ByteMatcher 2 = ([False, True] ! 0, [2, 3, 2, 3] ! 0) \<and>
   counting_Record ([1, 2, 2, 3] ! 1) ByteMatcher 2 = ([False, True] ! 1, [2, 3, 2, 3] ! 1) \<and>
   Suc 1 = length [False, True] \<and>
   last [False, True] \<and>
   drop (length [False, True]) [2, 3, 2, 3 :: nat] = drop (length [False, True]) [1, 2, 2, 3] \<and>
   length (filter (\<lambda>b. b) [False, True]) \<le> 1"
proof -
  have f: "fan_out counting_Record ByteMatcher 2 [1, 2, 2, 3] = ([False, True], [2, 3, 2, 3])"
    by (simp add: counting_Record_def)
  note w = fan_out_first_claim_wins [OF f]
  have i0: "0 < length [False, True]" and i1: "1 < length [False, True]"
    and b1: "[False, True] ! 1" and short: "length [False, True] < length [1, 2, 2, 3 :: nat]"
    by simp_all
  from w have len: "length [False, True] \<le> length [1, 2, 2, 3 :: nat]" by (rule conjunct1)
  from w i0 have c0:
    "counting_Record ([1, 2, 2, 3] ! 0) ByteMatcher 2 = ([False, True] ! 0, [2, 3, 2, 3] ! 0)"
    by blast
  from w i1 have c1:
    "counting_Record ([1, 2, 2, 3] ! 1) ByteMatcher 2 = ([False, True] ! 1, [2, 3, 2, 3] ! 1)"
    by blast
  from w i1 b1 have l: "Suc 1 = length [False, True]" by blast
  from w short have la: "last [False, True]" by blast
  from w have d:
    "drop (length [False, True]) [2, 3, 2, 3 :: nat] = drop (length [False, True]) [1, 2, 2, 3]"
    by blast
  from w have a: "length (filter (\<lambda>b. b) [False, True]) \<le> 1" by blast
  from f len c0 c1 l la d a show ?thesis by blast
qed

end
